theory Spec2Isabelle
  imports Complex_Main "HOL-Library.AList" "HOL-Library.Multiset"
    "HOL-Library.Char_ord" "HOL-Library.List_Lexorder" "HOL-Library.Log_Nat"
begin

section \<open>Documents and the collection\<close>

text \<open>
  \<^verbatim>\<open>queries.js\<close> is a sequence of calls into the MongoDB driver on the collection
  \<^verbatim>\<open>plp_bookstore.books\<close>. Each function of the script passes a filter, an update or a
  pipeline, written as an object literal, to one driver method. The embedding keeps
  that shape: every operator the script uses (\<^verbatim>\<open>$lt\<close>, \<^verbatim>\<open>$gte\<close>, \<^verbatim>\<open>$lte\<close>, \<^verbatim>\<open>$set\<close>,
  \<^verbatim>\<open>$group\<close>, \<^verbatim>\<open>$avg\<close>, \<^verbatim>\<open>$sum\<close>, \<^verbatim>\<open>$first\<close>, \<^verbatim>\<open>$sort\<close>, \<^verbatim>\<open>$project\<close>, \<^verbatim>\<open>$subtract\<close>, \<^verbatim>\<open>$mod\<close>)
  and every driver method (\<^verbatim>\<open>insertOne\<close>, \<^verbatim>\<open>findOne\<close>, \<^verbatim>\<open>find\<close>, \<^verbatim>\<open>updateOne\<close>,
  \<^verbatim>\<open>deleteOne\<close>, \<^verbatim>\<open>aggregate\<close>) is a HOL function, and each function of the script is
  the same composition of them as in the source. The projection query
  \<^verbatim>\<open>findBooksByGenre\<close> and the three index functions change neither the collection nor
  what the other functions return, and are left out.

  A field value is one of the scalar BSON values the book records hold. A number is
  the rational it denotes (every IEEE double is one), so comparisons are exact; where
  the server computes a new double, in \<^verbatim>\<open>$avg\<close>, the model rounds as the server does.
  A document is an ordered list of fields, as BSON stores it; a field that is missing
  reads as \<open>Null\<close>, which is how filters, sort keys and accumulators of MongoDB treat
  it.
\<close>

datatype val = Null | Num rat | Str string | OId nat | Bool bool

type_synonym doc = "(string \<times> val) list"

definition fld :: "doc \<Rightarrow> string \<Rightarrow> val" where
  "fld d k = (case map_of d k of None \<Rightarrow> Null | Some v \<Rightarrow> v)"

text \<open>
  The collection is the list of its documents in natural (insertion) order, together
  with the counter the driver generates \<^verbatim>\<open>ObjectId\<close>s from.
  \<^verbatim>\<open>connectToMongoDB\<close> hands out the collection; a connection that cannot be opened
  rejects before any operation of the script starts and is outside the model, as is
  \<^verbatim>\<open>console.log\<close>.
\<close>

record store =
  docs :: "doc list"
  next_oid :: nat


subsection \<open>The BSON comparison order\<close>

text \<open>
  Values of different types compare by their type's place in the BSON order
  (null, numbers, strings, ObjectId, boolean); values of one type compare by value,
  strings bytewise.
\<close>

fun type_rank :: "val \<Rightarrow> nat" where
  "type_rank Null = 2"
| "type_rank (Num _) = 3"
| "type_rank (Str _) = 4"
| "type_rank (OId _) = 8"
| "type_rank (Bool _) = 9"

fun val_le :: "val \<Rightarrow> val \<Rightarrow> bool" where
  "val_le (Num a) (Num b) = (a \<le> b)"
| "val_le (Str a) (Str b) = (a \<le> b)"
| "val_le (OId a) (OId b) = (a \<le> b)"
| "val_le (Bool a) (Bool b) = (a \<le> b)"
| "val_le a b = (type_rank a \<le> type_rank b)"

subsection \<open>Filters\<close>

text \<open>
  \<^verbatim>\<open>{ k: v }\<close> matches a document whose field \<open>k\<close> equals \<open>v\<close>. The comparison
  operators match only values of the operand's own type (type bracketing), so a
  missing or non-numeric price never satisfies \<^verbatim>\<open>{ price: { $lt: 10 } }\<close>.
\<close>

definition eq_q :: "string \<Rightarrow> val \<Rightarrow> doc \<Rightarrow> bool" where
  "eq_q k v d = (fld d k = v)"

definition lt_q :: "string \<Rightarrow> val \<Rightarrow> doc \<Rightarrow> bool" where
  "lt_q k v d = (type_rank (fld d k) = type_rank v \<and> \<not> val_le v (fld d k))"

definition gte_q :: "string \<Rightarrow> val \<Rightarrow> doc \<Rightarrow> bool" where
  "gte_q k v d = (type_rank (fld d k) = type_rank v \<and> val_le v (fld d k))"

definition lte_q :: "string \<Rightarrow> val \<Rightarrow> doc \<Rightarrow> bool" where
  "lte_q k v d = (type_rank (fld d k) = type_rank v \<and> val_le (fld d k) v)"

subsection \<open>Reading: findOne, find, sort\<close>

definition findOne :: "doc list \<Rightarrow> (doc \<Rightarrow> bool) \<Rightarrow> doc option" where
  "findOne coll q = List.find q coll"

definition find_docs :: "doc list \<Rightarrow> (doc \<Rightarrow> bool) \<Rightarrow> doc list" where
  "find_docs coll q = filter q coll"

text \<open>
  A sort specification lists keys with a direction (\<^verbatim>\<open>1\<close> is \<open>Asc\<close>, \<^verbatim>\<open>-1\<close> is \<open>Desc\<close>);
  a later key decides only between documents equal on the earlier ones. The sort is
  an insertion sort that leaves ties in their input order. MongoDB promises no order
  among ties, and no theorem below depends on it.
\<close>

datatype dir = Asc | Desc

fun sort_le :: "(string \<times> dir) list \<Rightarrow> doc \<Rightarrow> doc \<Rightarrow> bool" where
  "sort_le [] a b = True"
| "sort_le ((k, Asc) # ks) a b =
     (if fld a k = fld b k then sort_le ks a b else val_le (fld a k) (fld b k))"
| "sort_le ((k, Desc) # ks) a b =
     (if fld a k = fld b k then sort_le ks a b else val_le (fld b k) (fld a k))"

fun insort_by :: "('a \<Rightarrow> 'a \<Rightarrow> bool) \<Rightarrow> 'a \<Rightarrow> 'a list \<Rightarrow> 'a list" where
  "insort_by le x [] = [x]"
| "insort_by le x (y # ys) = (if le x y then x # y # ys else y # insort_by le x ys)"

definition sort_docs :: "(string \<times> dir) list \<Rightarrow> doc list \<Rightarrow> doc list" where
  "sort_docs spec ds = foldr (insort_by (sort_le spec)) ds []"

subsection \<open>Writing: insertOne, updateOne, deleteOne\<close>




text \<open>
  \<^verbatim>\<open>{ $set: { k: v } }\<close> replaces the value of \<open>k\<close> in place, or appends the field when
  the document has none.
\<close>

definition set_op :: "string \<Rightarrow> val \<Rightarrow> doc \<Rightarrow> doc" where
  "set_op k v d = AList.update k v d"

fun update_first :: "(doc \<Rightarrow> bool) \<Rightarrow> (doc \<Rightarrow> doc) \<Rightarrow> doc list \<Rightarrow> doc list" where
  "update_first q u [] = []"
| "update_first q u (d # ds) = (if q d then u d # ds else d # update_first q u ds)"

fun remove_first :: "(doc \<Rightarrow> bool) \<Rightarrow> doc list \<Rightarrow> doc list" where
  "remove_first q [] = []"
| "remove_first q (d # ds) = (if q d then ds else d # remove_first q ds)"

text \<open>
  \<^verbatim>\<open>updateOne\<close> applies the update to the first document the filter matches.
  \<^verbatim>\<open>matchedCount\<close> counts the document matched, \<^verbatim>\<open>modifiedCount\<close> the document
  changed: an update that leaves the document as it was modifies nothing.
\<close>

record update_result =
  matchedCount :: nat
  modifiedCount :: nat

definition updateOne ::
  "store \<Rightarrow> (doc \<Rightarrow> bool) \<Rightarrow> (doc \<Rightarrow> doc) \<Rightarrow> update_result \<times> store" where
  "updateOne s q u =
     (case findOne (docs s) q of
        None \<Rightarrow> (\<lparr>matchedCount = 0, modifiedCount = 0\<rparr>, s)
      | Some d \<Rightarrow>
          (\<lparr>matchedCount = 1, modifiedCount = (if u d = d then 0 else 1)\<rparr>,
           s\<lparr>docs := update_first q u (docs s)\<rparr>))"

record delete_result =
  deletedCount :: nat

definition deleteOne :: "store \<Rightarrow> (doc \<Rightarrow> bool) \<Rightarrow> delete_result \<times> store" where
  "deleteOne s q =
     (case findOne (docs s) q of
        None \<Rightarrow> (\<lparr>deletedCount = 0\<rparr>, s)
      | Some d \<Rightarrow> (\<lparr>deletedCount = 1\<rparr>, s\<lparr>docs := remove_first q (docs s)\<rparr>))"

subsection \<open>Aggregation stages\<close>


text \<open>
  Rounding to the nearest IEEE double, ties to the even significand: \<open>expo x\<close> is the
  binary exponent of \<open>x\<close> (\<open>2 powi expo x \<le> \<bar>x\<bar> < 2 powi (expo x + 1)\<close>), and the
  result is the nearest multiple of \<open>2 powi (expo x - 52)\<close>, which has a significand of
  53 bits. The exponent range is taken as unbounded: prices are far from overflow and
  from the subnormal numbers.
\<close>

definition expo :: "rat \<Rightarrow> int" where
  "expo x =
     (if 1 \<le> \<bar>x\<bar> then bitlen \<lfloor>\<bar>x\<bar>\<rfloor> - 1 else - bitlen (\<lceil>1 / \<bar>x\<bar>\<rceil> - 1))"





definition first_acc :: "(doc \<Rightarrow> val) \<Rightarrow> doc list \<Rightarrow> val" where
  "first_acc e ds = (case ds of [] \<Rightarrow> Null | d # _ \<Rightarrow> e d)"

definition group_stage ::
  "(doc \<Rightarrow> val) \<Rightarrow> (string \<times> (doc list \<Rightarrow> val)) list \<Rightarrow> doc list \<Rightarrow> doc list" where
  "group_stage key accs ds =
     map (\<lambda>g. (''_id'', g) # map (\<lambda>(n, acc). (n, acc (filter (\<lambda>d. key d = g) ds))) accs)
       (remdups (map key ds))"











section \<open>The functions of queries.js\<close>


definition readBook :: "store \<Rightarrow> string \<Rightarrow> doc option" where
  "readBook s title = findOne (docs s) (eq_q ''title'' (Str title))"

definition updateBookPrice :: "store \<Rightarrow> string \<Rightarrow> rat \<Rightarrow> update_result \<times> store" where
  "updateBookPrice s title newPrice =
     updateOne s (eq_q ''title'' (Str title)) (set_op ''price'' (Num newPrice))"

definition deleteBook :: "store \<Rightarrow> string \<Rightarrow> delete_result \<times> store" where
  "deleteBook s title = deleteOne s (eq_q ''title'' (Str title))"

definition findBooksBetweenYears :: "store \<Rightarrow> rat \<Rightarrow> rat \<Rightarrow> doc list" where
  "findBooksBetweenYears s startYear endYear =
     sort_docs [(''published_year'', Asc)]
       (find_docs (docs s)
          (\<lambda>d. gte_q ''published_year'' (Num startYear) d \<and>
               lte_q ''published_year'' (Num endYear) d))"

definition findAffordableBooksInStock :: "store \<Rightarrow> rat \<Rightarrow> doc list" where
  "findAffordableBooksInStock s maxPrice =
     find_docs (docs s)
       (\<lambda>d. lt_q ''price'' (Num maxPrice) d \<and> eq_q ''in_stock'' (Bool True) d)"



definition getMostExpensiveByGenre :: "store \<Rightarrow> doc list" where
  "getMostExpensiveByGenre s =
     group_stage (\<lambda>d. fld d ''genre'')
       [(''title'', first_acc (\<lambda>d. fld d ''title'')),
        (''author'', first_acc (\<lambda>d. fld d ''author'')),
        (''price'', first_acc (\<lambda>d. fld d ''price''))]
       (sort_docs [(''genre'', Asc), (''price'', Desc)] (docs s))"

section \<open>Sample data\<close>

text \<open>
  Six of the books the script's own run prints, used to evaluate the functions on
  concrete input.
\<close>

definition book_1984 :: doc where
  "book_1984 =
     [(''_id'', OId 0), (''title'', Str ''1984''), (''author'', Str ''George Orwell''),
      (''genre'', Str ''Dystopian''), (''published_year'', Num 1949),
      (''price'', Num (1099 / 100)), (''in_stock'', Bool True), (''pages'', Num 328),
      (''publisher'', Str ''Secker & Warburg'')]"

definition book_gatsby :: doc where
  "book_gatsby =
     [(''_id'', OId 1), (''title'', Str ''The Great Gatsby''),
      (''author'', Str ''F. Scott Fitzgerald''), (''genre'', Str ''Fiction''),
      (''published_year'', Num 1925), (''price'', Num (999 / 100)),
      (''in_stock'', Bool True), (''pages'', Num 180),
      (''publisher'', Str ''Charles Scribner's Sons'')]"

definition book_brave :: doc where
  "book_brave =
     [(''_id'', OId 2), (''title'', Str ''Brave New World''),
      (''author'', Str ''Aldous Huxley''), (''genre'', Str ''Dystopian''),
      (''published_year'', Num 1932), (''price'', Num (115 / 10)),
      (''in_stock'', Bool False), (''pages'', Num 311),
      (''publisher'', Str ''Chatto & Windus'')]"

definition book_hobbit :: doc where
  "book_hobbit =
     [(''_id'', OId 3), (''title'', Str ''The Hobbit''), (''author'', Str ''J.R.R. Tolkien''),
      (''genre'', Str ''Fantasy''), (''published_year'', Num 1937),
      (''price'', Num (1599 / 100)), (''in_stock'', Bool True), (''pages'', Num 310),
      (''publisher'', Str ''George Allen & Unwin'')]"

definition book_farm :: doc where
  "book_farm =
     [(''_id'', OId 4), (''title'', Str ''Animal Farm''), (''author'', Str ''George Orwell''),
      (''genre'', Str ''Political Satire''), (''published_year'', Num 1945),
      (''price'', Num (85 / 10)), (''in_stock'', Bool False), (''pages'', Num 112),
      (''publisher'', Str ''Secker & Warburg'')]"

definition book_pride :: doc where
  "book_pride =
     [(''_id'', OId 5), (''title'', Str ''Pride and Prejudice''),
      (''author'', Str ''Jane Austen''), (''genre'', Str ''Romance''),
      (''published_year'', Num 1813), (''price'', Num (799 / 100)),
      (''in_stock'', Bool True), (''pages'', Num 432),
      (''publisher'', Str ''T. Egerton, Whitehall'')]"

definition sample :: store where
  "sample =
     \<lparr>docs = [book_1984, book_gatsby, book_brave, book_hobbit, book_farm, book_pride],
      next_oid = 6\<rparr>"






section \<open>The comparison order and the sort\<close>

lemma val_le_refl: "val_le a a"
  by (cases a) simp_all

lemma val_le_total: "val_le a b \<or> val_le b a"
  by (cases a; cases b) auto

lemma val_le_trans: "val_le a b \<Longrightarrow> val_le b c \<Longrightarrow> val_le a c"
  by (cases a; cases b; cases c) auto

lemma val_le_antisym: "val_le a b \<Longrightarrow> val_le b a \<Longrightarrow> a = b"
  by (cases a; cases b) auto

lemma sort_le_total: "sort_le spec a b \<or> sort_le spec b a"
  by (induction spec a b rule: sort_le.induct) (auto simp: val_le_total)

lemma sort_le_trans: "sort_le spec a b \<Longrightarrow> sort_le spec b c \<Longrightarrow> sort_le spec a c"
proof (induction spec a b arbitrary: c rule: sort_le.induct)
  case (1 a b)
  then show ?case by simp
next
  case (2 k ks a b)
  then show ?case
    by (auto split: if_splits dest: val_le_trans val_le_antisym)
next
  case (3 k ks a b)
  then show ?case
    by (auto split: if_splits dest: val_le_trans val_le_antisym)
qed

lemma set_insort_by: "set (insort_by le x xs) = insert x (set xs)"
  by (induction xs) auto

lemma mset_insort_by: "mset (insort_by le x xs) = add_mset x (mset xs)"
  by (induction xs) auto

lemma sorted_insort_by:
  assumes tot: "\<And>a b. le a b \<or> le b a"
    and tr: "\<And>a b c. le a b \<Longrightarrow> le b c \<Longrightarrow> le a c"
  shows "sorted_wrt le xs \<Longrightarrow> sorted_wrt le (insort_by le x xs)"
proof (induction xs)
  case Nil
  then show ?case by simp
next
  case (Cons y ys)
  show ?case
  proof (cases "le x y")
    case True
    with Cons.prems tr show ?thesis by auto
  next
    case False
    with tot have "le y x" by blast
    with False Cons show ?thesis by (auto simp: set_insort_by)
  qed
qed

lemma mset_sort_docs: "mset (sort_docs spec ds) = mset ds"
  by (induction ds) (simp_all add: sort_docs_def mset_insort_by)

lemma set_sort_docs: "set (sort_docs spec ds) = set ds"
  by (induction ds) (simp_all add: sort_docs_def set_insort_by)

lemma sorted_sort_docs: "sorted_wrt (sort_le spec) (sort_docs spec ds)"
proof (induction ds)
  case Nil
  then show ?case by (simp add: sort_docs_def)
next
  case (Cons d ds)
  have "sorted_wrt (sort_le spec) (insort_by (sort_le spec) d (sort_docs spec ds))"
    by (rule sorted_insort_by[OF sort_le_total sort_le_trans Cons.IH])
  then show ?case by (simp add: sort_docs_def)
qed


section \<open>Queries\<close>

lemmas sample_defs = sample_def book_1984_def book_gatsby_def book_brave_def book_hobbit_def
  book_farm_def book_pride_def

lemma lt_q_num: "lt_q k (Num m) d \<longleftrightarrow> (\<exists>p. fld d k = Num p \<and> p < m)"
  by (cases "fld d k") (auto simp: lt_q_def)

lemma gte_q_num: "gte_q k (Num m) d \<longleftrightarrow> (\<exists>p. fld d k = Num p \<and> m \<le> p)"
  by (cases "fld d k") (auto simp: gte_q_def)

lemma lte_q_num: "lte_q k (Num m) d \<longleftrightarrow> (\<exists>p. fld d k = Num p \<and> p \<le> m)"
  by (cases "fld d k") (auto simp: lte_q_def)

text \<open>
  C3. For every \<open>maxPrice\<close> and every collection, \<^verbatim>\<open>findAffordableBooksInStock\<close> returns
  exactly the documents whose price is a number strictly below \<open>maxPrice\<close> and whose
  \<^verbatim>\<open>in_stock\<close> is true, in collection order. A document priced exactly \<open>maxPrice\<close> is
  not returned, and a document with \<^verbatim>\<open>in_stock\<close> false is never returned, whatever its
  price.
\<close>

theorem findAffordableBooksInStock_exact:
  "findAffordableBooksInStock s maxPrice =
     filter (\<lambda>d. (\<exists>p. fld d ''price'' = Num p \<and> p < maxPrice) \<and> fld d ''in_stock'' = Bool True)
       (docs s)
   \<and> (\<forall>d. fld d ''price'' = Num maxPrice \<longrightarrow> d \<notin> set (findAffordableBooksInStock s maxPrice))
   \<and> (\<forall>d. fld d ''in_stock'' = Bool False \<longrightarrow> d \<notin> set (findAffordableBooksInStock s maxPrice))"
  by (auto simp: findAffordableBooksInStock_def find_docs_def lt_q_num eq_q_def)

theorem findAffordableBooksInStock_witness:
  "fld book_gatsby ''price'' = Num (999 / 100)
   \<and> book_gatsby \<notin> set (findAffordableBooksInStock sample (999 / 100))
   \<and> fld book_farm ''in_stock'' = Bool False
   \<and> book_farm \<notin> set (findAffordableBooksInStock sample (999 / 100))
   \<and> findAffordableBooksInStock sample (999 / 100) = [book_pride]"
proof -
  have p: "fld book_gatsby ''price'' = Num (999 / 100)"
    by (simp add: fld_def book_gatsby_def)
  have q: "fld book_farm ''in_stock'' = Bool False"
    by (simp add: fld_def book_farm_def)
  have e: "findAffordableBooksInStock sample (999 / 100) = [book_pride]"
    by (simp add: findAffordableBooksInStock_def find_docs_def lt_q_def eq_q_def fld_def sample_defs)
  from findAffordableBooksInStock_exact [of sample "999 / 100"] p q e show ?thesis
    by blast
qed

text \<open>
  C4. For every pair of bounds and every collection, \<^verbatim>\<open>findBooksBetweenYears\<close> returns
  exactly the documents whose \<^verbatim>\<open>published_year\<close> is a number \<open>y\<close> with
  \<open>startYear \<le> y \<le> endYear\<close> (each as often as the collection holds it), and the
  years of the returned sequence are non-decreasing.
\<close>

theorem findBooksBetweenYears_range_sorted:
  "mset (findBooksBetweenYears s startYear endYear) =
     mset (filter (\<lambda>d. \<exists>y. fld d ''published_year'' = Num y \<and> startYear \<le> y \<and> y \<le> endYear)
            (docs s))
   \<and> (\<exists>ys. map (\<lambda>d. fld d ''published_year'') (findBooksBetweenYears s startYear endYear) =
             map Num ys \<and> sorted ys)"
proof -
  let ?q = "\<lambda>d. gte_q ''published_year'' (Num startYear) d \<and> lte_q ''published_year'' (Num endYear) d"
  let ?p = "\<lambda>d. \<exists>y. fld d ''published_year'' = Num y \<and> startYear \<le> y \<and> y \<le> endYear"
  let ?r = "findBooksBetweenYears s startYear endYear"
  have qp: "?q = ?p"
    by (auto simp: gte_q_num lte_q_num fun_eq_iff)
  have r: "?r = sort_docs [(''published_year'', Asc)] (filter ?p (docs s))"
    unfolding findBooksBetweenYears_def find_docs_def qp ..
  have m: "mset ?r = mset (filter ?p (docs s))"
    unfolding r by (rule mset_sort_docs)
  have allnum: "\<forall>d \<in> set ?r. \<exists>y. fld d ''published_year'' = Num y"
    unfolding r set_sort_docs by auto
  have srt: "sorted_wrt (sort_le [(''published_year'', Asc)]) ?r"
    unfolding r by (rule sorted_sort_docs)
  have gen: "(\<forall>d \<in> set xs. \<exists>y. fld d ''published_year'' = Num y) \<Longrightarrow>
      sorted_wrt (sort_le [(''published_year'', Asc)]) xs \<Longrightarrow>
      \<exists>ys. map (\<lambda>d. fld d ''published_year'') xs = map Num ys \<and> sorted ys" for xs
  proof (induction xs)
    case Nil
    then show ?case by simp
  next
    case (Cons x xs)
    then obtain ys where ys: "map (\<lambda>d. fld d ''published_year'') xs = map Num ys" "sorted ys"
      by (auto simp del: sort_le.simps)
    from Cons.prems(1) obtain y where y: "fld x ''published_year'' = Num y" by auto
    have "\<forall>z \<in> set ys. y \<le> z"
    proof
      fix z assume "z \<in> set ys"
      then have "Num z \<in> set (map (\<lambda>d. fld d ''published_year'') xs)"
        unfolding ys(1) by simp
      then obtain e where e: "e \<in> set xs" "fld e ''published_year'' = Num z" by auto
      with Cons.prems(2) have "sort_le [(''published_year'', Asc)] x e"
        by (auto simp del: sort_le.simps)
      with y e(2) show "y \<le> z" by (simp split: if_splits)
    qed
    with ys y have "map (\<lambda>d. fld d ''published_year'') (x # xs) = map Num (y # ys) \<and> sorted (y # ys)"
      by simp
    then show ?case by blast
  qed
  from m gen[OF allnum srt] show ?thesis by blast
qed

theorem findBooksBetweenYears_witness:
  "mset (findBooksBetweenYears sample 1937 1949) = mset [book_1984, book_hobbit, book_farm]
   \<and> map (\<lambda>d. fld d ''title'') (findBooksBetweenYears sample 1937 1949) =
       [Str ''The Hobbit'', Str ''Animal Farm'', Str ''1984'']"
proof -
  have f: "filter (\<lambda>d. \<exists>y. fld d ''published_year'' = Num y \<and> 1937 \<le> y \<and> y \<le> 1949)
      (docs sample) = [book_1984, book_hobbit, book_farm]"
    by (simp add: fld_def sample_defs)
  have e: "map (\<lambda>d. fld d ''title'') (findBooksBetweenYears sample 1937 1949) =
       [Str ''The Hobbit'', Str ''Animal Farm'', Str ''1984'']"
    by (simp add: findBooksBetweenYears_def find_docs_def gte_q_def lte_q_def sort_docs_def
        fld_def sample_defs)
  from findBooksBetweenYears_range_sorted [of sample 1937 1949] f e show ?thesis
    by simp
qed

section \<open>Create, read, update, delete\<close>

lemma map_of_set_op: "map_of (set_op k v d) = (map_of d)(k \<mapsto> v)"
  by (simp add: set_op_def update_conv')

lemma fld_set_op: "fld (set_op k v d) k' = (if k' = k then v else fld d k')"
  by (simp add: fld_def map_of_set_op)

lemma set_op_same_iff: "set_op k v d = d \<longleftrightarrow> map_of d k = Some v"
proof
  assume "set_op k v d = d"
  then have "map_of (set_op k v d) k = map_of d k" by simp
  then show "map_of d k = Some v" by (simp add: map_of_set_op)
next
  assume "map_of d k = Some v"
  then show "set_op k v d = d" by (simp add: set_op_def update_triv)
qed

lemma find_None_iff_set: "List.find q ds = None \<longleftrightarrow> (\<forall>d \<in> set ds. \<not> q d)"
  by (induction ds) auto

lemma find_Some_in: "List.find q ds = Some d \<Longrightarrow> d \<in> set ds \<and> q d"
  by (induction ds) (auto split: if_splits)

lemma find_update_first:
  "(\<And>d. q d \<Longrightarrow> q (u d)) \<Longrightarrow> List.find q (update_first q u ds) = map_option u (List.find q ds)"
  by (induction ds) auto

lemma length_update_first: "length (update_first q u ds) = length ds"
  by (induction ds) auto

lemma nth_update_first:
  "i < length ds \<Longrightarrow> update_first q u ds ! i = ds ! i \<or> (q (ds ! i) \<and> update_first q u ds ! i = u (ds ! i))"
proof (induction ds arbitrary: i)
  case Nil
  then show ?case by simp
next
  case (Cons d ds)
  then show ?case by (cases i) auto
qed

lemma zip_same_unchanged: "filter (\<lambda>(a, b). a \<noteq> b) (zip ds ds) = []"
  by (induction ds) auto

lemma update_first_changes_one:
  "length (filter (\<lambda>(a, b). a \<noteq> b) (zip ds (update_first q u ds))) \<le> 1"
  by (induction ds) (auto simp: zip_same_unchanged)

lemma update_first_no_match: "\<forall>d \<in> set ds. \<not> q d \<Longrightarrow> update_first q u ds = ds"
  by (induction ds) auto

lemma remove_first_find:
  "remove_first q ds = (case List.find q ds of None \<Rightarrow> ds | Some d \<Rightarrow> remove1 d ds)"
  by (induction ds) (auto split: option.splits dest: find_Some_in)


lemma title_kept: "eq_q ''title'' (Str t) d \<Longrightarrow> eq_q ''title'' (Str t) (set_op ''price'' v d)"
  by (simp add: eq_q_def fld_set_op)

lemma filter_update_first:
  assumes "\<And>d. q d \<Longrightarrow> q (u d)"
  shows "filter q (update_first q u ds) =
     (case filter q ds of [] \<Rightarrow> [] | x # xs \<Rightarrow> u x # xs)"
  using assms by (induction ds) (auto split: list.splits)

text \<open>
  C5. For every title \<open>t\<close> that matches exactly one document \<open>d0\<close> of the collection
  and every new price \<open>v\<close>, \<^verbatim>\<open>updateBookPrice\<close> followed by \<^verbatim>\<open>readBook\<close> of \<open>t\<close>
  returns a document titled \<open>t\<close> whose price is \<open>v\<close>. It is the one document titled
  \<open>t\<close> of the updated collection, and agrees with \<open>d0\<close> on every field other than
  the price.
\<close>

theorem update_then_read_price:
  assumes "length (filter (\<lambda>d. fld d ''title'' = Str t) (docs s)) = 1"
  shows "\<exists>d0 d. filter (\<lambda>d. fld d ''title'' = Str t) (docs s) = [d0]
           \<and> readBook (snd (updateBookPrice s t v)) t = Some d
           \<and> filter (\<lambda>d. fld d ''title'' = Str t) (docs (snd (updateBookPrice s t v))) = [d]
           \<and> fld d ''title'' = Str t
           \<and> fld d ''price'' = Num v
           \<and> (\<forall>k. k \<noteq> ''price'' \<longrightarrow> map_of d k = map_of d0 k)"
proof -
  let ?q = "eq_q ''title'' (Str t)"
  let ?u = "set_op ''price'' (Num v)"
  have q: "?q = (\<lambda>d. fld d ''title'' = Str t)"
    by (simp add: eq_q_def fun_eq_iff)
  from assms obtain d0 where d0: "filter ?q (docs s) = [d0]"
    unfolding q by (cases "filter (\<lambda>d. fld d ''title'' = Str t) (docs s)") auto
  then have "d0 \<in> set (filter ?q (docs s))"
    by simp
  then have m: "d0 \<in> set (docs s)" "?q d0"
    by simp_all
  have f: "List.find ?q (docs s) = Some d0"
  proof (cases "List.find ?q (docs s)")
    case None
    with m show ?thesis by (simp add: find_None_iff_set)
  next
    case (Some x)
    then have "x \<in> set (filter ?q (docs s))"
      by (auto dest: find_Some_in)
    with d0 Some show ?thesis by simp
  qed
  have s': "docs (snd (updateBookPrice s t v)) = update_first ?q ?u (docs s)"
    using f by (simp add: updateBookPrice_def updateOne_def findOne_def)
  have r: "readBook (snd (updateBookPrice s t v)) t = Some (?u d0)"
    unfolding readBook_def findOne_def s' using f by (simp add: find_update_first title_kept)
  have l: "filter ?q (docs (snd (updateBookPrice s t v))) = [?u d0]"
    unfolding s' by (simp add: filter_update_first title_kept d0)
  have t: "fld (?u d0) ''title'' = Str t"
    using title_kept[OF m(2)] by (simp add: eq_q_def)
  have p: "fld (?u d0) ''price'' = Num v"
    by (simp add: fld_set_op)
  have k: "\<forall>k. k \<noteq> ''price'' \<longrightarrow> map_of (?u d0) k = map_of d0 k"
    by (simp add: map_of_set_op)
  show ?thesis
    by (intro exI conjI) (rule d0[unfolded q], rule r, rule l[unfolded q], rule t, rule p, rule k)
qed

theorem update_then_read_price_witness:
  "length (filter (\<lambda>d. fld d ''title'' = Str ''The Hobbit'') (docs sample)) = 1
   \<and> (\<exists>d. readBook (snd (updateBookPrice sample ''The Hobbit'' 12)) ''The Hobbit'' = Some d
          \<and> fld d ''title'' = Str ''The Hobbit'' \<and> fld d ''price'' = Num 12)"
proof -
  have h: "length (filter (\<lambda>d. fld d ''title'' = Str ''The Hobbit'') (docs sample)) = 1"
    by (simp add: fld_def sample_defs)
  from update_then_read_price [OF h, of 12]
  obtain d where o: "readBook (snd (updateBookPrice sample ''The Hobbit'' 12)) ''The Hobbit'' = Some d"
      "fld d ''title'' = Str ''The Hobbit''" "fld d ''price'' = Num 12"
    by (elim exE conjE)
  have "\<exists>d. readBook (snd (updateBookPrice sample ''The Hobbit'' 12)) ''The Hobbit'' = Some d
          \<and> fld d ''title'' = Str ''The Hobbit'' \<and> fld d ''price'' = Num 12"
    by (intro exI conjI) (rule o(1), rule o(2), rule o(3))
  with h show ?thesis
    by (intro conjI)
qed

text \<open>
  C10. For every collection, title and new price, \<^verbatim>\<open>updateBookPrice\<close> keeps the number
  and the order of the documents; in every document every field other than
  \<^verbatim>\<open>price\<close> (the identifier included) reads as before; a document whose title is not
  the given one is unchanged as a whole; and at most one document differs from what
  it was.
\<close>

theorem updateBookPrice_frame:
  "next_oid (snd (updateBookPrice s t v)) = next_oid s
   \<and> length (docs (snd (updateBookPrice s t v))) = length (docs s)
   \<and> (\<forall>i < length (docs s).
        (\<forall>k. k \<noteq> ''price'' \<longrightarrow>
           map_of (docs (snd (updateBookPrice s t v)) ! i) k = map_of (docs s ! i) k)
        \<and> (fld (docs s ! i) ''title'' \<noteq> Str t \<longrightarrow>
             docs (snd (updateBookPrice s t v)) ! i = docs s ! i))
   \<and> length (filter (\<lambda>(d, d'). d \<noteq> d') (zip (docs s) (docs (snd (updateBookPrice s t v))))) \<le> 1"
proof -
  let ?q = "eq_q ''title'' (Str t)"
  let ?u = "set_op ''price'' (Num v)"
  have ds': "docs (snd (updateBookPrice s t v)) = update_first ?q ?u (docs s)"
    by (auto simp: updateBookPrice_def updateOne_def findOne_def find_None_iff_set
        update_first_no_match split: option.splits)
  have oid: "next_oid (snd (updateBookPrice s t v)) = next_oid s"
    by (simp add: updateBookPrice_def updateOne_def split: option.splits)
  have fr: "(\<forall>k. k \<noteq> ''price'' \<longrightarrow> map_of (update_first ?q ?u (docs s) ! i) k = map_of (docs s ! i) k)
        \<and> (fld (docs s ! i) ''title'' \<noteq> Str t \<longrightarrow> update_first ?q ?u (docs s) ! i = docs s ! i)"
    if "i < length (docs s)" for i
    using nth_update_first[OF that, of ?q ?u]
    by (auto simp: map_of_set_op eq_q_def)
  show ?thesis
    unfolding ds' using oid fr update_first_changes_one[of "docs s" ?q ?u]
    by (simp add: length_update_first)
qed

theorem updateBookPrice_frame_witness:
  "(3::nat) < length (docs sample) \<and> ''title'' \<noteq> ''price''
   \<and> map_of (docs (snd (updateBookPrice sample ''The Hobbit'' 12)) ! 3) ''title'' =
       map_of (docs sample ! 3) ''title''
   \<and> (0::nat) < length (docs sample)
   \<and> fld (docs sample ! 0) ''title'' \<noteq> Str ''The Hobbit''
   \<and> docs (snd (updateBookPrice sample ''The Hobbit'' 12)) ! 0 = docs sample ! 0"
proof -
  have a: "(3::nat) < length (docs sample)" "(0::nat) < length (docs sample)"
    by (simp_all add: sample_def)
  have b: "''title'' \<noteq> ''price''"
    by simp
  have c: "fld (docs sample ! 0) ''title'' \<noteq> Str ''The Hobbit''"
    by (simp add: sample_def book_1984_def fld_def)
  from updateBookPrice_frame [of sample "''The Hobbit''" 12]
  have f: "\<forall>i < length (docs sample).
        (\<forall>k. k \<noteq> ''price'' \<longrightarrow>
           map_of (docs (snd (updateBookPrice sample ''The Hobbit'' 12)) ! i) k =
           map_of (docs sample ! i) k)
        \<and> (fld (docs sample ! i) ''title'' \<noteq> Str ''The Hobbit'' \<longrightarrow>
             docs (snd (updateBookPrice sample ''The Hobbit'' 12)) ! i = docs sample ! i)"
    by (rule conjunct1[OF conjunct2[OF conjunct2]])
  note at3 = f[THEN spec, THEN mp, OF a(1)]
  note g = at3[THEN conjunct1, THEN spec, THEN mp, OF b]
  note at0 = f[THEN spec, THEN mp, OF a(2)]
  note h = at0[THEN conjunct2, THEN mp, OF c]
  from a b c g h show ?thesis
    by (intro conjI)
qed

text \<open>
  C9, as stated, fails: a title can match a document while the reported
  \<^verbatim>\<open>modifiedCount\<close> is 0. The script's own call
  \<^verbatim>\<open>updateBookPrice('The Hobbit', 15.99)\<close> on a collection where the book already costs
  15.99 matches the book and modifies nothing.
\<close>

theorem no_op_update_counterexample:
  "book_hobbit \<in> set (docs sample) \<and> fld book_hobbit ''title'' = Str ''The Hobbit''
   \<and> modifiedCount (fst (updateBookPrice sample ''The Hobbit'' (1599 / 100))) = 0"
  by (simp add: updateBookPrice_def updateOne_def findOne_def eq_q_def set_op_def fld_def
      sample_defs)

text \<open>
  C9, amended. When the title matches no document, \<^verbatim>\<open>updateBookPrice\<close> and
  \<^verbatim>\<open>deleteBook\<close> return normally with all counts zero and leave the collection as it
  was. When the title matches at least one document, \<^verbatim>\<open>deleteBook\<close> reports
  \<^verbatim>\<open>deletedCount\<close> 1 and removes exactly the first match; \<^verbatim>\<open>updateBookPrice\<close> reports
  \<^verbatim>\<open>matchedCount\<close> 1, changes at most one document, and its \<^verbatim>\<open>modifiedCount\<close> is 1
  when the first match had another price and 0 when it already had the new price.
\<close>

theorem update_delete_counts:
  "((\<forall>d \<in> set (docs s). fld d ''title'' \<noteq> Str t) \<longrightarrow>
       updateBookPrice s t v = (\<lparr>matchedCount = 0, modifiedCount = 0\<rparr>, s)
     \<and> deleteBook s t = (\<lparr>deletedCount = 0\<rparr>, s))
   \<and> ((\<exists>d \<in> set (docs s). fld d ''title'' = Str t) \<longrightarrow>
       (\<exists>d. readBook s t = Some d
          \<and> matchedCount (fst (updateBookPrice s t v)) = 1
          \<and> modifiedCount (fst (updateBookPrice s t v)) =
              (if fld d ''price'' = Num v then 0 else 1)
          \<and> length (filter (\<lambda>(a, b). a \<noteq> b)
                (zip (docs s) (docs (snd (updateBookPrice s t v))))) \<le> 1
          \<and> deletedCount (fst (deleteBook s t)) = 1
          \<and> docs (snd (deleteBook s t)) = remove1 d (docs s)))"
proof -
  let ?q = "eq_q ''title'' (Str t)"
  let ?u = "set_op ''price'' (Num v)"
  have none: "updateBookPrice s t v = (\<lparr>matchedCount = 0, modifiedCount = 0\<rparr>, s)
      \<and> deleteBook s t = (\<lparr>deletedCount = 0\<rparr>, s)"
    if "\<forall>d \<in> set (docs s). fld d ''title'' \<noteq> Str t"
  proof -
    from that have "List.find ?q (docs s) = None"
      by (simp add: find_None_iff_set eq_q_def)
    then show ?thesis
      by (simp add: updateBookPrice_def updateOne_def deleteBook_def deleteOne_def findOne_def)
  qed
  have some: "\<exists>d. readBook s t = Some d
          \<and> matchedCount (fst (updateBookPrice s t v)) = 1
          \<and> modifiedCount (fst (updateBookPrice s t v)) =
              (if fld d ''price'' = Num v then 0 else 1)
          \<and> length (filter (\<lambda>(a, b). a \<noteq> b)
                (zip (docs s) (docs (snd (updateBookPrice s t v))))) \<le> 1
          \<and> deletedCount (fst (deleteBook s t)) = 1
          \<and> docs (snd (deleteBook s t)) = remove1 d (docs s)"
    if "\<exists>d \<in> set (docs s). fld d ''title'' = Str t"
  proof -
    from that have "List.find ?q (docs s) \<noteq> None"
      by (simp add: find_None_iff_set eq_q_def)
    then obtain d where d: "List.find ?q (docs s) = Some d"
      by blast
    have same: "?u d = d \<longleftrightarrow> fld d ''price'' = Num v"
      by (auto simp: set_op_same_iff fld_def split: option.splits)
    have r: "readBook s t = Some d"
      using d by (simp add: readBook_def findOne_def)
    have u: "updateBookPrice s t v =
        (\<lparr>matchedCount = 1, modifiedCount = (if fld d ''price'' = Num v then 0 else 1)\<rparr>,
         s\<lparr>docs := update_first ?q ?u (docs s)\<rparr>)"
      using d same by (simp add: updateBookPrice_def updateOne_def findOne_def)
    have x: "deleteBook s t = (\<lparr>deletedCount = 1\<rparr>, s\<lparr>docs := remove1 d (docs s)\<rparr>)"
      using d by (simp add: deleteBook_def deleteOne_def findOne_def remove_first_find)
    from r u x update_first_changes_one[of "docs s" ?q ?u] show ?thesis
      by simp
  qed
  from none some show ?thesis
    by blast
qed

theorem update_delete_counts_witness:
  "filter (\<lambda>d. fld d ''title'' = Str ''Moby Dick'') (docs sample) = []
   \<and> updateBookPrice sample ''Moby Dick'' 12 = (\<lparr>matchedCount = 0, modifiedCount = 0\<rparr>, sample)
   \<and> deleteBook sample ''Moby Dick'' = (\<lparr>deletedCount = 0\<rparr>, sample)
   \<and> book_hobbit \<in> set (docs sample) \<and> fld book_hobbit ''title'' = Str ''The Hobbit''
   \<and> readBook sample ''The Hobbit'' = Some book_hobbit
   \<and> matchedCount (fst (updateBookPrice sample ''The Hobbit'' 12)) = 1
   \<and> modifiedCount (fst (updateBookPrice sample ''The Hobbit'' 12)) = 1
   \<and> deletedCount (fst (deleteBook sample ''The Hobbit'')) = 1
   \<and> docs (snd (deleteBook sample ''The Hobbit'')) =
       [book_1984, book_gatsby, book_brave, book_farm, book_pride]"
proof -
  have a: "filter (\<lambda>d. fld d ''title'' = Str ''Moby Dick'') (docs sample) = []"
    by (simp add: fld_def sample_defs)
  then have a': "\<forall>d \<in> set (docs sample). fld d ''title'' \<noteq> Str ''Moby Dick''"
    by (simp add: filter_empty_conv)
  have b: "book_hobbit \<in> set (docs sample)" "fld book_hobbit ''title'' = Str ''The Hobbit''"
    by (simp_all add: sample_def fld_def book_hobbit_def)
  then have b': "\<exists>d \<in> set (docs sample). fld d ''title'' = Str ''The Hobbit''"
    by blast
  have r: "readBook sample ''The Hobbit'' = Some book_hobbit"
    by (simp add: readBook_def findOne_def eq_q_def fld_def sample_defs)
  have p: "fld book_hobbit ''price'' \<noteq> Num 12"
    by (simp add: fld_def book_hobbit_def)
  have l: "remove1 book_hobbit (docs sample) =
      [book_1984, book_gatsby, book_brave, book_farm, book_pride]"
    by (simp add: sample_defs)
  from update_delete_counts [of sample "''Moby Dick''" 12] a'
  have z: "updateBookPrice sample ''Moby Dick'' 12 =
        (\<lparr>matchedCount = 0, modifiedCount = 0\<rparr>, sample)
      \<and> deleteBook sample ''Moby Dick'' = (\<lparr>deletedCount = 0\<rparr>, sample)"
    by blast
  from update_delete_counts [of sample "''The Hobbit''" 12] b' r p l
  have o: "matchedCount (fst (updateBookPrice sample ''The Hobbit'' 12)) = 1
      \<and> modifiedCount (fst (updateBookPrice sample ''The Hobbit'' 12)) = 1
      \<and> deletedCount (fst (deleteBook sample ''The Hobbit'')) = 1
      \<and> docs (snd (deleteBook sample ''The Hobbit'')) =
          [book_1984, book_gatsby, book_brave, book_farm, book_pride]"
    by auto
  from a b r z o show ?thesis
    by blast
qed


lemma fold_max_ge: "a \<le> fold max xs (a::nat)" and fold_max_mem: "x \<in> set xs \<Longrightarrow> x \<le> fold max xs a"
proof -
  have m: "fold max xs a = Max (set (a # xs))"
    by (rule Max.set_eq_fold[symmetric])
  show "a \<le> fold max xs a"
    unfolding m by (rule Max_ge) simp_all
  show "x \<le> fold max xs a" if "x \<in> set xs"
    unfolding m using that by (intro Max_ge) simp_all
qed










section \<open>Aggregation pipelines\<close>

lemma group_stage_ids:
  "map (\<lambda>g. fld g ''_id'') (group_stage key accs ds) = remdups (map key ds)"
  by (simp add: group_stage_def fld_def comp_def)

lemma group_stage_member:
  "g \<in> set (group_stage key accs ds) \<longleftrightarrow>
     (\<exists>k \<in> key ` set ds.
        g = (''_id'', k) # map (\<lambda>(n, acc). (n, acc (filter (\<lambda>d. key d = k) ds))) accs)"
  by (auto simp: group_stage_def)





subsection \<open>Rounding to double\<close>



lemma expo_upper:
  assumes "x \<noteq> 0"
  shows "\<bar>x\<bar> < 2 powi (expo x + 1)"
proof (cases "1 \<le> \<bar>x\<bar>")
  case True
  let ?m = "\<lfloor>\<bar>x\<bar>\<rfloor>"
  from True have m: "0 < ?m" by linarith
  from bitlen_bounds[OF m] have "?m < 2 ^ nat (bitlen ?m)" by simp
  then have "?m + 1 \<le> 2 ^ nat (bitlen ?m)" by simp
  then have "(of_int (?m + 1) :: rat) \<le> of_int (2 ^ nat (bitlen ?m))"
    by (simp only: of_int_le_iff)
  moreover have "\<bar>x\<bar> < of_int (?m + 1)" by linarith
  ultimately have "\<bar>x\<bar> < 2 ^ nat (bitlen ?m)" by simp
  moreover have "0 \<le> bitlen ?m" by (rule bitlen_nonneg)
  ultimately show ?thesis
    using True by (simp add: expo_def power_int_def)
next
  case False
  let ?y = "1 / \<bar>x\<bar>"
  let ?k = "bitlen (\<lceil>?y\<rceil> - 1)"
  from assms have ax: "0 < \<bar>x\<bar>" by simp
  from False ax have y: "1 < ?y" by (simp add: pos_less_divide_eq)
  then have c: "0 < \<lceil>?y\<rceil> - 1" by linarith
  then have k: "1 \<le> ?k" by (simp add: bitlen_alt_def)
  from bitlen_bounds[OF c] have "2 ^ nat (?k - 1) \<le> \<lceil>?y\<rceil> - 1" by simp
  then have "(of_int (2 ^ nat (?k - 1)) :: rat) \<le> of_int (\<lceil>?y\<rceil> - 1)"
    by (simp only: of_int_le_iff)
  then have "(2::rat) ^ nat (?k - 1) \<le> of_int (\<lceil>?y\<rceil> - 1)" by simp
  moreover have "of_int (\<lceil>?y\<rceil> - 1) < ?y" by linarith
  ultimately have "2 ^ nat (?k - 1) < ?y" by (rule le_less_trans)
  then have "2 ^ nat (?k - 1) * \<bar>x\<bar> < 1"
    using ax by (simp only: pos_less_divide_eq)
  then have "\<bar>x\<bar> < 1 / 2 ^ nat (?k - 1)"
    by (simp add: pos_less_divide_eq mult.commute)
  moreover have "2 powi (- ?k + 1) = 1 / (2::rat) ^ nat (?k - 1)"
  proof -
    have "- ?k + 1 = - int (nat (?k - 1))" using k by simp
    then have "(2::rat) powi (- ?k + 1) = 2 powi (- int (nat (?k - 1)))" by simp
    also have "\<dots> = 1 / 2 ^ nat (?k - 1)"
      by (simp only: power_int_minus power_int_of_nat divide_inverse mult_1)
    finally show ?thesis .
  qed
  ultimately show ?thesis
    using False by (simp add: expo_def)
qed




subsection \<open>The three pipelines\<close>
















lemma sort_le_genre_price:
  assumes "sort_le [(''genre'', Asc), (''price'', Desc)] a b" and "fld a ''genre'' = fld b ''genre''"
  shows "val_le (fld b ''price'') (fld a ''price'')"
  using assms by (simp add: val_le_refl split: if_splits)

lemma first_of_sorted_group:
  assumes "k \<in> (\<lambda>d. fld d ''genre'') ` set ds"
  shows "\<exists>d rest. filter (\<lambda>d. fld d ''genre'' = k)
            (sort_docs [(''genre'', Asc), (''price'', Desc)] ds) = d # rest
      \<and> d \<in> set ds \<and> fld d ''genre'' = k
      \<and> (\<forall>e \<in> set ds. fld e ''genre'' = k \<longrightarrow> val_le (fld e ''price'') (fld d ''price''))"
proof -
  let ?spec = "[(''genre'', Asc), (''price'', Desc)]"
  let ?F = "filter (\<lambda>d. fld d ''genre'' = k) (sort_docs ?spec ds)"
  from assms have "?F \<noteq> []"
    by (auto simp: filter_empty_conv set_sort_docs)
  then obtain d rest where F: "?F = d # rest"
    by (cases ?F) auto
  have "d \<in> set ?F"
    unfolding F by simp
  then have d: "d \<in> set ds" "fld d ''genre'' = k"
    by (simp_all add: set_sort_docs)
  have "sorted_wrt (sort_le ?spec) ?F"
    by (rule sorted_wrt_filter) (rule sorted_sort_docs)
  then have le: "\<forall>e \<in> set rest. sort_le ?spec d e"
    unfolding F by (simp del: sort_le.simps)
  have "val_le (fld e ''price'') (fld d ''price'')" if "e \<in> set ds" "fld e ''genre'' = k" for e
  proof -
    from that have "e \<in> set ?F"
      by (simp add: set_sort_docs)
    then consider "e = d" | "e \<in> set rest"
      unfolding F by auto
    then show ?thesis
    proof cases
      case 1
      then show ?thesis by (simp add: val_le_refl)
    next
      case 2
      with le have "sort_le ?spec d e" by blast
      then show ?thesis
        by (rule sort_le_genre_price) (simp add: d(2) that(2))
    qed
  qed
  with F d show ?thesis
    by blast
qed

text \<open>
  C8. For every collection, \<^verbatim>\<open>getMostExpensiveByGenre\<close> returns exactly one entry per
  genre that occurs in the collection; the title, author and price of an entry are
  those of one document of that genre, and no document of the genre has a greater
  price (in the BSON order, which on numbers is \<open>\<le>\<close> and puts a missing price
  below every number).
\<close>

theorem getMostExpensiveByGenre_max:
  "distinct (map (\<lambda>g. fld g ''_id'') (getMostExpensiveByGenre s))
   \<and> set (map (\<lambda>g. fld g ''_id'') (getMostExpensiveByGenre s)) =
       (\<lambda>d. fld d ''genre'') ` set (docs s)
   \<and> (\<forall>g \<in> set (getMostExpensiveByGenre s).
        \<exists>d \<in> set (docs s).
          fld d ''genre'' = fld g ''_id''
          \<and> fld g ''title'' = fld d ''title''
          \<and> fld g ''author'' = fld d ''author''
          \<and> fld g ''price'' = fld d ''price''
          \<and> (\<forall>e \<in> set (docs s). fld e ''genre'' = fld g ''_id'' \<longrightarrow>
                val_le (fld e ''price'') (fld g ''price'')))"
proof -
  let ?spec = "[(''genre'', Asc), (''price'', Desc)]"
  let ?key = "\<lambda>d. fld d ''genre''"
  let ?r = "getMostExpensiveByGenre s"
  have ids: "map (\<lambda>g. fld g ''_id'') ?r = remdups (map ?key (sort_docs ?spec (docs s)))"
    unfolding getMostExpensiveByGenre_def by (rule group_stage_ids)
  have d: "distinct (map (\<lambda>g. fld g ''_id'') ?r)"
    unfolding ids by simp
  have e: "set (map (\<lambda>g. fld g ''_id'') ?r) = ?key ` set (docs s)"
    unfolding ids by (simp add: set_sort_docs)
  have m: "\<exists>d \<in> set (docs s).
          fld d ''genre'' = fld g ''_id''
          \<and> fld g ''title'' = fld d ''title''
          \<and> fld g ''author'' = fld d ''author''
          \<and> fld g ''price'' = fld d ''price''
          \<and> (\<forall>e \<in> set (docs s). fld e ''genre'' = fld g ''_id'' \<longrightarrow>
                val_le (fld e ''price'') (fld g ''price''))"
    if "g \<in> set ?r" for g
  proof -
    from that obtain k where k: "k \<in> ?key ` set (docs s)"
      and g: "g = [(''_id'', k),
          (''title'', first_acc (\<lambda>d. fld d ''title'')
             (filter (\<lambda>d. ?key d = k) (sort_docs ?spec (docs s)))),
          (''author'', first_acc (\<lambda>d. fld d ''author'')
             (filter (\<lambda>d. ?key d = k) (sort_docs ?spec (docs s)))),
          (''price'', first_acc (\<lambda>d. fld d ''price'')
             (filter (\<lambda>d. ?key d = k) (sort_docs ?spec (docs s))))]"
      by (auto simp: getMostExpensiveByGenre_def group_stage_member set_sort_docs)
    from first_of_sorted_group[OF k] obtain d0 rest where
      F: "filter (\<lambda>d. ?key d = k) (sort_docs ?spec (docs s)) = d0 # rest"
      and d0: "d0 \<in> set (docs s)" "fld d0 ''genre'' = k"
      and mx: "\<forall>e \<in> set (docs s). fld e ''genre'' = k \<longrightarrow> val_le (fld e ''price'') (fld d0 ''price'')"
      by blast
    have f: "fld g ''_id'' = k" "fld g ''title'' = fld d0 ''title''"
      "fld g ''author'' = fld d0 ''author''" "fld g ''price'' = fld d0 ''price''"
      unfolding g F by (simp_all add: fld_def first_acc_def)
    from d0 mx show ?thesis
      unfolding f by blast
  qed
  from d e m show ?thesis
    by blast
qed

theorem getMostExpensiveByGenre_witness:
  "getMostExpensiveByGenre sample =
     [[(''_id'', Str ''Dystopian''), (''title'', Str ''Brave New World''),
       (''author'', Str ''Aldous Huxley''), (''price'', Num (23 / 2))],
      [(''_id'', Str ''Fantasy''), (''title'', Str ''The Hobbit''),
       (''author'', Str ''J.R.R. Tolkien''), (''price'', Num (1599 / 100))],
      [(''_id'', Str ''Fiction''), (''title'', Str ''The Great Gatsby''),
       (''author'', Str ''F. Scott Fitzgerald''), (''price'', Num (999 / 100))],
      [(''_id'', Str ''Political Satire''), (''title'', Str ''Animal Farm''),
       (''author'', Str ''George Orwell''), (''price'', Num (17 / 2))],
      [(''_id'', Str ''Romance''), (''title'', Str ''Pride and Prejudice''),
       (''author'', Str ''Jane Austen''), (''price'', Num (799 / 100))]]
   \<and> [(''_id'', Str ''Dystopian''), (''title'', Str ''Brave New World''),
       (''author'', Str ''Aldous Huxley''), (''price'', Num (23 / 2))]
        \<in> set (getMostExpensiveByGenre sample)
   \<and> book_1984 \<in> set (docs sample)
   \<and> fld book_1984 ''genre'' =
       fld [(''_id'', Str ''Dystopian''), (''title'', Str ''Brave New World''),
            (''author'', Str ''Aldous Huxley''), (''price'', Num (23 / 2))] ''_id''
   \<and> val_le (fld book_1984 ''price'')
        (fld [(''_id'', Str ''Dystopian''), (''title'', Str ''Brave New World''),
              (''author'', Str ''Aldous Huxley''), (''price'', Num (23 / 2))] ''price'')"
proof -
  let ?g = "[(''_id'', Str ''Dystopian''), (''title'', Str ''Brave New World''),
       (''author'', Str ''Aldous Huxley''), (''price'', Num (23 / 2))]"
  have e: "getMostExpensiveByGenre sample =
     [?g,
      [(''_id'', Str ''Fantasy''), (''title'', Str ''The Hobbit''),
       (''author'', Str ''J.R.R. Tolkien''), (''price'', Num (1599 / 100))],
      [(''_id'', Str ''Fiction''), (''title'', Str ''The Great Gatsby''),
       (''author'', Str ''F. Scott Fitzgerald''), (''price'', Num (999 / 100))],
      [(''_id'', Str ''Political Satire''), (''title'', Str ''Animal Farm''),
       (''author'', Str ''George Orwell''), (''price'', Num (17 / 2))],
      [(''_id'', Str ''Romance''), (''title'', Str ''Pride and Prejudice''),
       (''author'', Str ''Jane Austen''), (''price'', Num (799 / 100))]]"
    by (simp add: getMostExpensiveByGenre_def group_stage_def first_acc_def sort_docs_def
        fld_def sample_defs)
  have m: "?g \<in> set (getMostExpensiveByGenre sample)"
    unfolding e by simp
  have b: "book_1984 \<in> set (docs sample)"
    by (simp add: sample_def)
  have c: "fld book_1984 ''genre'' = fld ?g ''_id''"
    by (simp add: fld_def book_1984_def)
  note a = getMostExpensiveByGenre_max [of sample, THEN conjunct2, THEN conjunct2, THEN bspec, OF m]
  from a obtain d where "\<forall>e \<in> set (docs sample). fld e ''genre'' = fld ?g ''_id'' \<longrightarrow>
                val_le (fld e ''price'') (fld ?g ''price'')"
    by (elim bexE conjE)
  note v = this[THEN bspec, OF b, THEN mp, OF c]
  from e m b c v show ?thesis
    by (intro conjI)
qed

end
